theory Spec2Isabelle
  imports Main "HOL-Library.Word" "HOL-Library.AList" "HOL-Library.Sublist"
begin

section \<open>Go values\<close>

text \<open>
  An \<open>error\<close> is the value made by \<open>errors.New\<close> or \<open>fmt.Errorf\<close>; a nil error is
  \<open>None :: error option\<close>.
\<close>

datatype error = Error string

text \<open>
  Floating-point values are carried, never computed with: a \<open>float32\<close> is its 32-bit
  pattern and a \<open>float64\<close> its 64-bit pattern, so the two kinds are different types and
  the zero value of each is the pattern \<open>0\<close>.
\<close>

datatype float32 = Float32 "32 word"

datatype float64 = Float64 "64 word"

text \<open>
  The dynamic values of \<open>interface{}\<close> that \<open>Read\<close> stores or receives from a callback.
  The type parameter \<open>'n\<close> is Go's platform-dependent \<open>int\<close>; it is used at
  \<open>'i word\<close>, where \<open>'i\<close> is the width (32 or 64).
  A nested \<open>map[string]interface{}\<close> is an association list with Go's map
  assignment \<open>AList.update\<close>; a nested level of the returned tree and a map handed over
  by a callback are the same kind of value, as in Go.
\<close>

datatype 'n interface =
    VNil
  | VInt64 "64 word"
  | VFloat32 float32
  | VFloat64 float64
  | VBool bool
  | VString string
  | VStringSlice "string list"
  | VIntSlice "'n list"
  | VMap "(string \<times> 'n interface) list"

type_synonym 'n gomap = "(string \<times> 'n interface) list"

section \<open>The flag registry (spf13/pflag)\<close>

text \<open>
  \<open>pflag.Value\<close> is an interface with \<open>String()\<close> and \<open>Type()\<close> (and \<open>Set\<close>, which
  \<open>Read\<close> never calls); a flag carries its name, its value and the \<open>Changed\<close> marker.
  The registry is the list of its flags in the order in which \<open>VisitAll\<close> visits them.
\<close>

record pflagValue =
  String :: string
  Type :: string

record Flag =
  Name :: string
  Value :: pflagValue
  Changed :: bool

record FlagSet =
  formal :: "Flag list"

text \<open>
  The string conversions that pflag's typed getters apply to \<open>Value.String()\<close>
  (\<open>strconv.Atoi\<close>, \<open>strconv.ParseInt\<close>, \<open>strconv.ParseFloat\<close>, \<open>strconv.ParseBool\<close>,
  the CSV reader) are parameters of the model: nothing is assumed about them. The type
  parameter is Go's \<open>int\<close> again.
\<close>

record 'n convFuncs =
  intConv :: "string \<Rightarrow> error + 'n"
  int8Conv :: "string \<Rightarrow> error + 8 word"
  int16Conv :: "string \<Rightarrow> error + 16 word"
  int32Conv :: "string \<Rightarrow> error + 32 word"
  int64Conv :: "string \<Rightarrow> error + 64 word"
  float32Conv :: "string \<Rightarrow> error + float32"
  float64Conv :: "string \<Rightarrow> error + float64"
  boolConv :: "string \<Rightarrow> error + bool"
  stringSliceConv :: "string \<Rightarrow> error + string list"
  intSliceConv :: "string \<Rightarrow> error + 'n list"

definition Lookup :: "FlagSet \<Rightarrow> string \<Rightarrow> Flag option" where
  "Lookup fs name = find (\<lambda>flag. Name flag = name) (formal fs)"

text \<open>
  pflag's \<open>getFlagType\<close>: the flag must be defined and its \<open>Type()\<close> must be the tag
  the getter asks for; then its string rendering is converted.
\<close>

definition getFlagType ::
  "FlagSet \<Rightarrow> string \<Rightarrow> string \<Rightarrow> (string \<Rightarrow> error + 'a) \<Rightarrow> error + 'a" where
  "getFlagType fs name ftype convFunc =
     (case Lookup fs name of
        None \<Rightarrow> Inl (Error (''flag accessed but not defined: '' @ name))
      | Some flag \<Rightarrow>
          if Type (Value flag) \<noteq> ftype
          then Inl (Error (''trying to get '' @ ftype @ '' value of flag of type ''
                            @ Type (Value flag)))
          else convFunc (String (Value flag)))"

text \<open>Each getter returns the zero value of its type together with the error.\<close>

definition GetInt :: "('i::len) word convFuncs \<Rightarrow> FlagSet \<Rightarrow> string \<Rightarrow> 'i word \<times> error option" where
  "GetInt cv fs name =
     (case getFlagType fs name ''int'' (intConv cv) of
        Inl err \<Rightarrow> (0, Some err) | Inr val \<Rightarrow> (val, None))"

definition GetInt8 :: "'n convFuncs \<Rightarrow> FlagSet \<Rightarrow> string \<Rightarrow> 8 word \<times> error option" where
  "GetInt8 cv fs name =
     (case getFlagType fs name ''int8'' (int8Conv cv) of
        Inl err \<Rightarrow> (0, Some err) | Inr val \<Rightarrow> (val, None))"

definition GetInt16 :: "'n convFuncs \<Rightarrow> FlagSet \<Rightarrow> string \<Rightarrow> 16 word \<times> error option" where
  "GetInt16 cv fs name =
     (case getFlagType fs name ''int16'' (int16Conv cv) of
        Inl err \<Rightarrow> (0, Some err) | Inr val \<Rightarrow> (val, None))"

definition GetInt32 :: "'n convFuncs \<Rightarrow> FlagSet \<Rightarrow> string \<Rightarrow> 32 word \<times> error option" where
  "GetInt32 cv fs name =
     (case getFlagType fs name ''int32'' (int32Conv cv) of
        Inl err \<Rightarrow> (0, Some err) | Inr val \<Rightarrow> (val, None))"

definition GetInt64 :: "'n convFuncs \<Rightarrow> FlagSet \<Rightarrow> string \<Rightarrow> 64 word \<times> error option" where
  "GetInt64 cv fs name =
     (case getFlagType fs name ''int64'' (int64Conv cv) of
        Inl err \<Rightarrow> (0, Some err) | Inr val \<Rightarrow> (val, None))"

definition GetFloat32 :: "'n convFuncs \<Rightarrow> FlagSet \<Rightarrow> string \<Rightarrow> float32 \<times> error option" where
  "GetFloat32 cv fs name =
     (case getFlagType fs name ''float32'' (float32Conv cv) of
        Inl err \<Rightarrow> (Float32 0, Some err) | Inr val \<Rightarrow> (val, None))"

definition GetFloat64 :: "'n convFuncs \<Rightarrow> FlagSet \<Rightarrow> string \<Rightarrow> float64 \<times> error option" where
  "GetFloat64 cv fs name =
     (case getFlagType fs name ''float64'' (float64Conv cv) of
        Inl err \<Rightarrow> (Float64 0, Some err) | Inr val \<Rightarrow> (val, None))"

definition GetBool :: "'n convFuncs \<Rightarrow> FlagSet \<Rightarrow> string \<Rightarrow> bool \<times> error option" where
  "GetBool cv fs name =
     (case getFlagType fs name ''bool'' (boolConv cv) of
        Inl err \<Rightarrow> (False, Some err) | Inr val \<Rightarrow> (val, None))"

definition GetStringSlice ::
  "'n convFuncs \<Rightarrow> FlagSet \<Rightarrow> string \<Rightarrow> string list \<times> error option" where
  "GetStringSlice cv fs name =
     (case getFlagType fs name ''stringSlice'' (stringSliceConv cv) of
        Inl err \<Rightarrow> ([], Some err) | Inr val \<Rightarrow> (val, None))"

definition GetIntSlice ::
  "'n convFuncs \<Rightarrow> FlagSet \<Rightarrow> string \<Rightarrow> 'n list \<times> error option" where
  "GetIntSlice cv fs name =
     (case getFlagType fs name ''intSlice'' (intSliceConv cv) of
        Inl err \<Rightarrow> ([], Some err) | Inr val \<Rightarrow> (val, None))"

text \<open>\<open>VisitAll\<close> calls \<open>fn\<close> on every flag; \<open>fn\<close> updates the state it closes over.\<close>

definition VisitAll :: "FlagSet \<Rightarrow> (Flag \<Rightarrow> 's \<Rightarrow> 's) \<Rightarrow> 's \<Rightarrow> 's" where
  "VisitAll fs fn s = fold fn (formal fs) s"

section \<open>The parent configuration (koanf.Koanf)\<close>

text \<open>
  Modelled from the spec: \<open>koanf.Koanf\<close> is not among the sources. The spec gives it
  one operation, \<open>Exists(keyPath string) bool\<close>, a read-only lookup; it is a field
  here, so every theorem holds for every such lookup.
\<close>

record Koanf =
  Exists :: "string \<Rightarrow> bool"

section \<open>Go's \<open>strings.Split\<close> and \<open>strings.Join\<close>\<close>

text \<open>
  \<open>genSplit sep cur s\<close> scans \<open>s\<close> from the left; \<open>cur\<close> is the segment read so far.
  At the leftmost occurrence of the non-empty separator the segment is closed and the
  scan goes on behind the separator.
\<close>

function genSplit :: "string \<Rightarrow> string \<Rightarrow> string \<Rightarrow> string list" where
  "genSplit sep cur [] = [cur]"
| "genSplit sep cur (c # cs) =
     (if sep \<noteq> [] \<and> prefix sep (c # cs)
      then cur # genSplit sep [] (drop (length sep) (c # cs))
      else genSplit sep (cur @ [c]) cs)"
  by pat_completeness auto
termination
  by (relation "measure (\<lambda>(sep, cur, s). length s)") auto

text \<open>
  \<open>strings.Split(s, sep)\<close>: with an empty separator the string is cut after every
  character, and the empty string gives the empty slice. A \<open>char\<close> stands for one
  character of the key; Go cuts after every UTF-8 sequence, so for a key outside ASCII
  under the empty separator one \<open>char\<close> is to be read as one such sequence.
\<close>

definition Split :: "string \<Rightarrow> string \<Rightarrow> string list" where
  "Split s sep = (if sep = [] then map (\<lambda>c. [c]) s else genSplit sep [] s)"

fun Join :: "string list \<Rightarrow> string \<Rightarrow> string" where
  "Join [] sep = []"
| "Join [x] sep = x"
| "Join (x # y # ys) sep = x @ sep @ Join (y # ys) sep"

section \<open>Nesting and flattening (koanf/maps)\<close>

text \<open>
  Modelled from the spec: \<open>maps.Unflatten\<close> is not among the sources. The spec says that
  every key of the flat map is expanded by the delimiter into nested levels (a key
  \<open>a.b.c\<close> with delimiter \<open>.\<close> becomes \<open>a \<rightarrow> b \<rightarrow> c \<rightarrow> value\<close>) and that on colliding
  partial paths the later entry overwrites or merges into what is there.
  \<open>assign keys v next\<close> walks down the segments \<open>keys\<close>, creating a level where there is
  none, merging into a level that exists and replacing a value that stands in the way,
  and assigns \<open>v\<close> under the last segment; \<open>nest\<close> does so for every entry of the
  flat map. The first equation of \<open>assign\<close> is never reached from \<open>Unflatten\<close>: a key
  without segments (the empty key under the empty delimiter) is a panic, see below.
\<close>

fun assign :: "string list \<Rightarrow> 'n interface \<Rightarrow> 'n gomap \<Rightarrow> 'n gomap" where
  "assign [] v next = next"
| "assign [k] v next = AList.update k v next"
| "assign (k # ks) v next =
     (case map_of next k of
        Some (VMap n) \<Rightarrow> AList.update k (VMap (assign ks v n)) next
      | _ \<Rightarrow> AList.update k (VMap (assign ks v [])) next)"

definition nest :: "'n gomap \<Rightarrow> string \<Rightarrow> 'n gomap" where
  "nest m delim = fold (\<lambda>(k, v) out. assign (Split k delim) v out) m []"

text \<open>
  The walk takes the segments but the last and then the last one
  (\<open>keys[:len(keys)-1]\<close> and \<open>keys[len(keys)-1]\<close>). A key without segments makes these
  slice expressions panic, in whatever order the entries of the map are taken; so
  \<open>Unflatten\<close> panics when the flat map has such a key and is the nested map otherwise.
\<close>

datatype panic = SliceBoundsOutOfRange

definition Unflatten :: "'n gomap \<Rightarrow> string \<Rightarrow> panic + 'n gomap" where
  "Unflatten m delim =
     (if list_ex (\<lambda>(k, v). Split k delim = []) m then Inl SliceBoundsOutOfRange
      else Inr (nest m delim))"

text \<open>
  Modelled from the spec: \<open>maps.Flatten\<close> is not among the sources. The spec names it
  only as the inverse direction (flattening the tree with the same delimiter). It
  descends into every nested level and emits, for each value that is not a non-empty
  level, the segments on the way to it joined by the delimiter; an empty mapping is
  emitted as a value, since no key below it could stand for it. \<open>flatten\<close> lists what is
  emitted in order, \<open>Flatten\<close> is the resulting map (a later write wins).
\<close>

function flatten :: "'n gomap \<Rightarrow> string list \<Rightarrow> string \<Rightarrow> (string \<times> 'n interface) list" where
  "flatten [] keys delim = []"
| "flatten ((key, val) # m) keys delim =
     (case val of
        VMap (c # cur) \<Rightarrow> flatten (c # cur) (keys @ [key]) delim
      | _ \<Rightarrow> [(Join (keys @ [key]) delim, val)])
     @ flatten m keys delim"
  by pat_completeness auto
termination
  by (relation "measure (\<lambda>(m, keys, delim). size_list (size_prod (\<lambda>_. 0) size) m)") auto

definition Flatten :: "'n gomap \<Rightarrow> string list \<Rightarrow> string \<Rightarrow> (string \<rightharpoonup> 'n interface)" where
  "Flatten m keys delim = map_of (rev (flatten m keys delim))"

subsection \<open>Leaves of a nested map\<close>

text \<open>
  Notions for stating and proving the round trip. A value is a leaf unless it is a
  non-empty nested map; \<open>paths\<close> lists the leaves of a tree with the segments that lead
  to them (it is \<open>flatten\<close> before the segments are joined), and \<open>leafPaths\<close> is the set
  of those below the root. A tree is well formed when no level has a key twice, as no
  Go map has. \<open>segments\<close> are the keys of a flat map, split; they are free of collisions
  when no segment path is a prefix of another one, and the values are flat when each of
  them is a leaf.
\<close>

definition isLeaf :: "'n interface \<Rightarrow> bool" where
  "isLeaf v = (case v of VMap (c # cur) \<Rightarrow> False | _ \<Rightarrow> True)"

definition nested :: "'n interface \<Rightarrow> 'n gomap" where
  "nested v = (case v of VMap n \<Rightarrow> n | _ \<Rightarrow> [])"

definition nestedAt :: "'n gomap \<Rightarrow> string \<Rightarrow> 'n gomap" where
  "nestedAt t k = (case map_of t k of Some v \<Rightarrow> nested v | None \<Rightarrow> [])"

function paths :: "'n gomap \<Rightarrow> string list \<Rightarrow> (string list \<times> 'n interface) list" where
  "paths [] keys = []"
| "paths ((key, val) # m) keys =
     (case val of
        VMap (c # cur) \<Rightarrow> paths (c # cur) (keys @ [key])
      | _ \<Rightarrow> [(keys @ [key], val)])
     @ paths m keys"
  by pat_completeness auto
termination
  by (relation "measure (\<lambda>(m, keys). size_list (size_prod (\<lambda>_. 0) size) m)") auto

inductive wellFormed :: "'n gomap \<Rightarrow> bool" where
  "distinct (map fst t) \<Longrightarrow> (\<forall>k n. (k, VMap n) \<in> set t \<longrightarrow> wellFormed n) \<Longrightarrow> wellFormed t"

fun collisionFree :: "string list list \<Rightarrow> bool" where
  "collisionFree [] = True"
| "collisionFree (p # ps) = ((\<forall>q \<in> set ps. \<not> prefix p q \<and> \<not> prefix q p) \<and> collisionFree ps)"

definition leafPaths :: "'n gomap \<Rightarrow> (string list \<times> 'n interface) set" where
  "leafPaths t = set (paths t [])"

definition leavesBelow :: "'n interface \<Rightarrow> (string list \<times> 'n interface) set" where
  "leavesBelow v = (if isLeaf v then {([], v)} else leafPaths (nested v))"

definition segments :: "'n gomap \<Rightarrow> string \<Rightarrow> string list list" where
  "segments m d = map (\<lambda>(k, v). Split k d) m"

definition flatValues :: "'n gomap \<Rightarrow> bool" where
  "flatValues m = list_all (\<lambda>(k, v). isLeaf v) m"

section \<open>The provider\<close>

record 'n Posflag =
  delim :: string
  flagset :: FlagSet
  ko :: "Koanf option"
  valueCallback :: "(string \<Rightarrow> string \<Rightarrow> string \<times> 'n interface) option"
  keyNameCallback :: "(Flag \<Rightarrow> string) option"

definition Provider :: "FlagSet \<Rightarrow> string \<Rightarrow> Koanf option \<Rightarrow> 'n Posflag" where
  "Provider f d k =
     \<lparr>delim = d, flagset = f, ko = k, valueCallback = None, keyNameCallback = None\<rparr>"

definition ProviderWithValue ::
  "FlagSet \<Rightarrow> string \<Rightarrow> Koanf option \<Rightarrow> (string \<Rightarrow> string \<Rightarrow> string \<times> 'n interface) option
     \<Rightarrow> 'n Posflag" where
  "ProviderWithValue f d k cb =
     \<lparr>delim = d, flagset = f, ko = k, valueCallback = cb, keyNameCallback = None\<rparr>"

definition ProviderWithOptions ::
  "FlagSet \<Rightarrow> string \<Rightarrow> ('n Posflag \<Rightarrow> 'n Posflag) list \<Rightarrow> 'n Posflag" where
  "ProviderWithOptions f d options =
     fold (\<lambda>opt p. opt p) options
       \<lparr>delim = d, flagset = f, ko = None, valueCallback = None, keyNameCallback = None\<rparr>"

definition ParentKoanf :: "Koanf option \<Rightarrow> 'n Posflag \<Rightarrow> 'n Posflag" where
  "ParentKoanf k p = p\<lparr>ko := k\<rparr>"

definition ValueCallback ::
  "(string \<Rightarrow> string \<Rightarrow> string \<times> 'n interface) option \<Rightarrow> 'n Posflag \<Rightarrow> 'n Posflag" where
  "ValueCallback cb p = p\<lparr>valueCallback := cb\<rparr>"

definition RenameCallback :: "(Flag \<Rightarrow> string) option \<Rightarrow> 'n Posflag \<Rightarrow> 'n Posflag" where
  "RenameCallback cb p = p\<lparr>keyNameCallback := cb\<rparr>"

subsection \<open>Read\<close>

text \<open>
  The type switch of the closure (from \<open>var v interface{}\<close> to \<open>mp[keyName] = v\<close>).
  The switch either leaves the closure (\<open>Inl\<close>, with the map as the default branch
  left it) or yields the value \<open>v\<close> (\<open>Inr\<close>), which is then assigned under \<open>keyName\<close>.
  \<open>int64(i)\<close> is \<open>scast\<close>, the sign-extending conversion.
\<close>

definition typeSwitch ::
  "('i::len) word convFuncs \<Rightarrow> 'i word Posflag \<Rightarrow> Flag \<Rightarrow> string \<Rightarrow> 'i word gomap
     \<Rightarrow> 'i word gomap" where
  "typeSwitch cv p f keyName mp =
     (let t = Type (Value f) in
      case
        (if t = ''int'' then Inr (VInt64 (scast (fst (GetInt cv (flagset p) (Name f)))))
         else if t = ''int8'' then Inr (VInt64 (scast (fst (GetInt8 cv (flagset p) (Name f)))))
         else if t = ''int16'' then Inr (VInt64 (scast (fst (GetInt16 cv (flagset p) (Name f)))))
         else if t = ''int32'' then Inr (VInt64 (scast (fst (GetInt32 cv (flagset p) (Name f)))))
         else if t = ''int64'' then Inr (VInt64 (scast (fst (GetInt64 cv (flagset p) (Name f)))))
         else if t = ''float32'' then Inr (VFloat32 (fst (GetFloat32 cv (flagset p) (Name f))))
         else if t = ''float'' then Inr (VFloat64 (fst (GetFloat64 cv (flagset p) (Name f))))
         else if t = ''bool'' then Inr (VBool (fst (GetBool cv (flagset p) (Name f))))
         else if t = ''stringSlice''
           then Inr (VStringSlice (fst (GetStringSlice cv (flagset p) (Name f))))
         else if t = ''intSlice'' then Inr (VIntSlice (fst (GetIntSlice cv (flagset p) (Name f))))
         else (case valueCallback p of
                 Some cb \<Rightarrow>
                   (case cb keyName (String (Value f)) of
                      (key, val) \<Rightarrow> Inl (if key = [] then mp else AList.update key val mp))
               | None \<Rightarrow> Inr (VString (String (Value f)))))
      of Inl mp' \<Rightarrow> mp' | Inr v \<Rightarrow> AList.update keyName v mp)"

text \<open>The first statements of the closure: the key under which the flag is stored.\<close>

definition keyNameOf :: "'n Posflag \<Rightarrow> Flag \<Rightarrow> string" where
  "keyNameOf p f = (case keyNameCallback p of Some cb \<Rightarrow> cb f | None \<Rightarrow> Name f)"

text \<open>
  The closure handed to \<open>VisitAll\<close>: the key, the decision on an unchanged flag, and
  the type switch (\<open>rest\<close>). It writes to the local map \<open>mp\<close> only.
\<close>

definition visit ::
  "('i::len) word convFuncs \<Rightarrow> 'i word Posflag \<Rightarrow> Flag \<Rightarrow> 'i word gomap \<Rightarrow> 'i word gomap" where
  "visit cv p f mp =
     (let keyName = keyNameOf p f;
          rest = typeSwitch cv p f keyName mp
      in if \<not> Changed f
         then (case ko p of
                 Some k \<Rightarrow> if Exists k keyName then mp else rest
               | None \<Rightarrow> mp)
         else rest)"

text \<open>
  \<open>Read\<close> panics where \<open>maps.Unflatten\<close> does; otherwise it returns the nested map, the
  error and, as the third component, the provider it was called on.
\<close>

definition Read ::
  "('i::len) word convFuncs \<Rightarrow> 'i word Posflag
     \<Rightarrow> panic + 'i word gomap \<times> error option \<times> 'i word Posflag" where
  "Read cv p =
     (let mp = VisitAll (flagset p) (visit cv p) []
      in case Unflatten mp (delim p) of
           Inl pn \<Rightarrow> Inl pn
         | Inr tree \<Rightarrow> Inr (tree, None, p))"

text \<open>
  Two notions for stating properties of the closure. \<open>caseTags\<close> are the labels of
  the switch's cases. \<open>included\<close> holds of the flags for which the closure reaches the
  switch: the changed ones, and the unchanged ones whose key the parent does not hold.
\<close>

definition caseTags :: "string list" where
  "caseTags = [''int'', ''int8'', ''int16'', ''int32'', ''int64'', ''float32'', ''float'',
               ''bool'', ''stringSlice'', ''intSlice'']"

definition included :: "'n Posflag \<Rightarrow> Flag \<Rightarrow> bool" where
  "included p f =
     (Changed f \<or> (case ko p of Some k \<Rightarrow> \<not> Exists k (keyNameOf p f) | None \<Rightarrow> False))"

subsection \<open>ReadBytes and Watch\<close>

text \<open>
  Both return at once. \<open>Watch\<close> takes the callback and the state \<open>w\<close> that a call of the
  callback would change, and returns that state with the error and the provider.
\<close>

definition ReadBytes :: "'n Posflag \<Rightarrow> 8 word list option \<times> error option \<times> 'n Posflag" where
  "ReadBytes p = (None, Some (Error ''pflag provider does not support this method''), p)"

definition Watch ::
  "'n Posflag \<Rightarrow> ('n interface \<Rightarrow> error option \<Rightarrow> 'w \<Rightarrow> 'w) \<Rightarrow> 'w
     \<Rightarrow> error option \<times> 'n Posflag \<times> 'w" where
  "Watch p cb w = (Some (Error ''posflag provider does not support this method''), p, w)"

section \<open>A concrete registry\<close>

text \<open>
  The registry of the spec's scenario (\<open>host\<close>, \<open>port\<close>, \<open>tags\<close>) with a few more flags,
  and conversions that know the renderings used in it. The theorems below are
  instantiated on these.
\<close>

definition exConv :: "64 word convFuncs" where
  "exConv =
     \<lparr>intConv = (\<lambda>s. if s = ''8080'' then Inr 8080 else Inl (Error ''invalid syntax'')),
      int8Conv = (\<lambda>s. if s = ''127'' then Inr 127 else if s = ''-128'' then Inr (- 128)
                       else Inl (Error ''invalid syntax'')),
      int16Conv = (\<lambda>s. Inl (Error ''invalid syntax'')),
      int32Conv = (\<lambda>s. Inl (Error ''invalid syntax'')),
      int64Conv = (\<lambda>s. Inl (Error ''invalid syntax'')),
      float32Conv = (\<lambda>s. Inl (Error ''invalid syntax'')),
      float64Conv = (\<lambda>s. if s = ''1.5'' then Inr (Float64 0x3FF8000000000000)
                          else Inl (Error ''invalid syntax'')),
      boolConv = (\<lambda>s. if s = ''true'' then Inr True else Inl (Error ''invalid syntax'')),
      stringSliceConv = (\<lambda>s. if s = ''[a,b]'' then Inr [''a'', ''b'']
                              else Inl (Error ''invalid syntax'')),
      intSliceConv = (\<lambda>s. Inl (Error ''invalid syntax''))\<rparr>"

definition fHost :: Flag where
  "fHost = \<lparr>Name = ''host'', Value = \<lparr>String = ''localhost'', Type = ''string''\<rparr>, Changed = False\<rparr>"

definition fPort :: Flag where
  "fPort = \<lparr>Name = ''port'', Value = \<lparr>String = ''8080'', Type = ''int''\<rparr>, Changed = True\<rparr>"

definition fTags :: Flag where
  "fTags = \<lparr>Name = ''tags'', Value = \<lparr>String = ''[a,b]'', Type = ''stringSlice''\<rparr>, Changed = False\<rparr>"

definition fRatio :: Flag where
  "fRatio = \<lparr>Name = ''ratio'', Value = \<lparr>String = ''1.5'', Type = ''float64''\<rparr>, Changed = True\<rparr>"

definition fHigh :: Flag where
  "fHigh = \<lparr>Name = ''high'', Value = \<lparr>String = ''127'', Type = ''int8''\<rparr>, Changed = True\<rparr>"

definition fLow :: Flag where
  "fLow = \<lparr>Name = ''low'', Value = \<lparr>String = ''-128'', Type = ''int8''\<rparr>, Changed = True\<rparr>"

definition fRetries :: Flag where
  "fRetries = \<lparr>Name = ''retries'', Value = \<lparr>String = ''3'', Type = ''uint8''\<rparr>, Changed = True\<rparr>"

definition fBad :: Flag where
  "fBad = \<lparr>Name = ''bad'', Value = \<lparr>String = ''many'', Type = ''int''\<rparr>, Changed = True\<rparr>"

definition exFlagSet :: FlagSet where
  "exFlagSet = \<lparr>formal = [fHost, fPort, fTags, fRatio, fHigh, fLow, fRetries, fBad]\<rparr>"

definition exParent :: Koanf where
  "exParent = \<lparr>Exists = (\<lambda>k. k = ''host'')\<rparr>"

definition exProvider :: "64 word Posflag" where
  "exProvider = Provider exFlagSet ''.'' None"

definition exProviderK :: "64 word Posflag" where
  "exProviderK = Provider exFlagSet ''.'' (Some exParent)"

definition exRename :: "Flag \<Rightarrow> string" where
  "exRename f = ''server.'' @ Name f"

definition exParentR :: Koanf where
  "exParentR = \<lparr>Exists = (\<lambda>k. k = ''server.host'')\<rparr>"

definition exFlat :: "64 word gomap" where
  "exFlat = [(''parent.child.key'', VInt64 1), (''parent.name'', VString ''x''), (''top'', VMap [])]"

definition exNested :: "64 word gomap" where
  "exNested = [(''a'', VMap [(''b'', VInt64 1)])]"

definition exNestedProvider :: "64 word Posflag" where
  "exNestedProvider =
     ProviderWithValue \<lparr>formal = [fRetries]\<rparr> ''.'' None
       (Some (\<lambda>key s. (''a'', VMap [(''b'', VInt64 1)])))"



definition exRenameValueProvider :: "64 word Posflag" where
  "exRenameValueProvider =
     RenameCallback (Some exRename)
       (ProviderWithValue \<lparr>formal = [fRetries]\<rparr> ''.'' None (Some (\<lambda>key s. (''x'', VString key))))"


section \<open>The closure of Read, case by case\<close>

lemmas ex_defs = exConv_def fHost_def fPort_def fTags_def fRatio_def fHigh_def fLow_def fRetries_def fBad_def
  exFlagSet_def exParent_def Provider_def exProvider_def exProviderK_def
lemmas get_defs = GetInt_def GetInt8_def GetInt16_def GetInt32_def GetInt64_def GetFloat32_def GetFloat64_def
  GetBool_def GetStringSlice_def GetIntSlice_def getFlagType_def Lookup_def

lemma visit_included:
  "included p f \<Longrightarrow> visit cv p f mp = typeSwitch cv p f (keyNameOf p f) mp"
  by (auto simp: visit_def included_def Let_def split: option.splits)




lemma typeSwitch_default:
  "Type (Value f) \<notin> set caseTags \<Longrightarrow>
   typeSwitch cv p f keyName mp =
     (case valueCallback p of
        Some cb \<Rightarrow> (case cb keyName (String (Value f)) of
                      (key, val) \<Rightarrow> if key = [] then mp else AList.update key val mp)
      | None \<Rightarrow> AList.update keyName (VString (String (Value f))) mp)"
  by (auto simp: typeSwitch_def caseTags_def Let_def split: option.splits prod.splits)

lemma typeSwitch_int:
  "Type (Value f) = ''int'' \<Longrightarrow> typeSwitch cv p f keyName mp =
     AList.update keyName (VInt64 (scast (fst (GetInt cv (flagset p) (Name f))))) mp"
  by (simp add: typeSwitch_def)

lemma typeSwitch_int8:
  "Type (Value f) = ''int8'' \<Longrightarrow> typeSwitch cv p f keyName mp =
     AList.update keyName (VInt64 (scast (fst (GetInt8 cv (flagset p) (Name f))))) mp"
  by (simp add: typeSwitch_def)

lemma typeSwitch_int16:
  "Type (Value f) = ''int16'' \<Longrightarrow> typeSwitch cv p f keyName mp =
     AList.update keyName (VInt64 (scast (fst (GetInt16 cv (flagset p) (Name f))))) mp"
  by (simp add: typeSwitch_def)

lemma typeSwitch_int32:
  "Type (Value f) = ''int32'' \<Longrightarrow> typeSwitch cv p f keyName mp =
     AList.update keyName (VInt64 (scast (fst (GetInt32 cv (flagset p) (Name f))))) mp"
  by (simp add: typeSwitch_def)

lemma typeSwitch_int64:
  "Type (Value f) = ''int64'' \<Longrightarrow> typeSwitch cv p f keyName mp =
     AList.update keyName (VInt64 (scast (fst (GetInt64 cv (flagset p) (Name f))))) mp"
  by (simp add: typeSwitch_def)

lemma typeSwitch_float32:
  "Type (Value f) = ''float32'' \<Longrightarrow> typeSwitch cv p f keyName mp =
     AList.update keyName (VFloat32 (fst (GetFloat32 cv (flagset p) (Name f)))) mp"
  by (simp add: typeSwitch_def)

lemma typeSwitch_float:
  "Type (Value f) = ''float'' \<Longrightarrow> typeSwitch cv p f keyName mp =
     AList.update keyName (VFloat64 (fst (GetFloat64 cv (flagset p) (Name f)))) mp"
  by (simp add: typeSwitch_def)

lemma typeSwitch_bool:
  "Type (Value f) = ''bool'' \<Longrightarrow> typeSwitch cv p f keyName mp =
     AList.update keyName (VBool (fst (GetBool cv (flagset p) (Name f)))) mp"
  by (simp add: typeSwitch_def)

lemma typeSwitch_stringSlice:
  "Type (Value f) = ''stringSlice'' \<Longrightarrow> typeSwitch cv p f keyName mp =
     AList.update keyName (VStringSlice (fst (GetStringSlice cv (flagset p) (Name f)))) mp"
  by (simp add: typeSwitch_def)

lemma typeSwitch_intSlice:
  "Type (Value f) = ''intSlice'' \<Longrightarrow> typeSwitch cv p f keyName mp =
     AList.update keyName (VIntSlice (fst (GetIntSlice cv (flagset p) (Name f)))) mp"
  by (simp add: typeSwitch_def)

lemma typeSwitch_key_only:
  assumes "Type (Value f) \<in> set caseTags \<or> valueCallback p = None"
  shows "\<exists>v. \<forall>keyName. typeSwitch cv p f keyName mp = AList.update keyName v mp"
proof (cases "Type (Value f) \<in> set caseTags")
  case True
  then consider "Type (Value f) = ''int''" | "Type (Value f) = ''int8''"
    | "Type (Value f) = ''int16''" | "Type (Value f) = ''int32''"
    | "Type (Value f) = ''int64''" | "Type (Value f) = ''float32''"
    | "Type (Value f) = ''float''" | "Type (Value f) = ''bool''"
    | "Type (Value f) = ''stringSlice''" | "Type (Value f) = ''intSlice''"
    by (auto simp: caseTags_def)
  then show ?thesis
  proof cases
    case 1 show ?thesis by (intro exI allI) (rule typeSwitch_int [OF 1])
  next
    case 2 show ?thesis by (intro exI allI) (rule typeSwitch_int8 [OF 2])
  next
    case 3 show ?thesis by (intro exI allI) (rule typeSwitch_int16 [OF 3])
  next
    case 4 show ?thesis by (intro exI allI) (rule typeSwitch_int32 [OF 4])
  next
    case 5 show ?thesis by (intro exI allI) (rule typeSwitch_int64 [OF 5])
  next
    case 6 show ?thesis by (intro exI allI) (rule typeSwitch_float32 [OF 6])
  next
    case 7 show ?thesis by (intro exI allI) (rule typeSwitch_float [OF 7])
  next
    case 8 show ?thesis by (intro exI allI) (rule typeSwitch_bool [OF 8])
  next
    case 9 show ?thesis by (intro exI allI) (rule typeSwitch_stringSlice [OF 9])
  next
    case 10 show ?thesis by (intro exI allI) (rule typeSwitch_intSlice [OF 10])
  qed
next
  case False
  with assms have "valueCallback p = None" by simp
  then show ?thesis by (auto simp: typeSwitch_default [OF False])
qed

lemma sint_int64:
  fixes i :: "'a::len word"
  assumes "LENGTH('a) \<le> 64"
  shows "sint (scast i :: 64 word) = sint i"
  by (rule sint_up_scast) (simp add: is_up assms)


lemma keyNameOf_rename: "keyNameCallback p = Some r \<Longrightarrow> keyNameOf p f = r f"
  by (simp add: keyNameOf_def)











section \<open>Signed integers\<close>

text \<open>
  C3. An included flag with the tag \<open>int\<close>, \<open>int8\<close>, \<open>int16\<close>, \<open>int32\<close> or \<open>int64\<close> is
  stored under its key as a 64-bit signed integer whose numeric value is the value the
  getter of that width returned (Go's \<open>int\<close> being at most 64 bits wide).
\<close>

theorem signed_integer_widening:
  fixes cv :: "('i::len) word convFuncs"
  assumes "included p f" and "LENGTH('i) \<le> 64"
  shows
   "(Type (Value f) = ''int'' \<longrightarrow>
       (\<exists>w. visit cv p f mp = AList.update (keyNameOf p f) (VInt64 w) mp \<and>
            sint w = sint (fst (GetInt cv (flagset p) (Name f))))) \<and>
    (Type (Value f) = ''int8'' \<longrightarrow>
       (\<exists>w. visit cv p f mp = AList.update (keyNameOf p f) (VInt64 w) mp \<and>
            sint w = sint (fst (GetInt8 cv (flagset p) (Name f))))) \<and>
    (Type (Value f) = ''int16'' \<longrightarrow>
       (\<exists>w. visit cv p f mp = AList.update (keyNameOf p f) (VInt64 w) mp \<and>
            sint w = sint (fst (GetInt16 cv (flagset p) (Name f))))) \<and>
    (Type (Value f) = ''int32'' \<longrightarrow>
       (\<exists>w. visit cv p f mp = AList.update (keyNameOf p f) (VInt64 w) mp \<and>
            sint w = sint (fst (GetInt32 cv (flagset p) (Name f))))) \<and>
    (Type (Value f) = ''int64'' \<longrightarrow>
       (\<exists>w. visit cv p f mp = AList.update (keyNameOf p f) (VInt64 w) mp \<and>
            sint w = sint (fst (GetInt64 cv (flagset p) (Name f)))))"
proof -
  note v = visit_included [OF assms(1)]
  have "sint (scast (fst (GetInt cv (flagset p) (Name f))) :: 64 word)
          = sint (fst (GetInt cv (flagset p) (Name f)))"
    by (rule sint_int64 [OF assms(2)])
  then have 1: "Type (Value f) = ''int'' \<longrightarrow>
       (\<exists>w. visit cv p f mp = AList.update (keyNameOf p f) (VInt64 w) mp \<and>
            sint w = sint (fst (GetInt cv (flagset p) (Name f))))"
    by (auto simp: v typeSwitch_int)
  have 2: "Type (Value f) = ''int8'' \<longrightarrow>
       (\<exists>w. visit cv p f mp = AList.update (keyNameOf p f) (VInt64 w) mp \<and>
            sint w = sint (fst (GetInt8 cv (flagset p) (Name f))))"
    by (auto simp: v typeSwitch_int8 sint_int64)
  have 3: "Type (Value f) = ''int16'' \<longrightarrow>
       (\<exists>w. visit cv p f mp = AList.update (keyNameOf p f) (VInt64 w) mp \<and>
            sint w = sint (fst (GetInt16 cv (flagset p) (Name f))))"
    by (auto simp: v typeSwitch_int16 sint_int64)
  have 4: "Type (Value f) = ''int32'' \<longrightarrow>
       (\<exists>w. visit cv p f mp = AList.update (keyNameOf p f) (VInt64 w) mp \<and>
            sint w = sint (fst (GetInt32 cv (flagset p) (Name f))))"
    by (auto simp: v typeSwitch_int32 sint_int64)
  have 5: "Type (Value f) = ''int64'' \<longrightarrow>
       (\<exists>w. visit cv p f mp = AList.update (keyNameOf p f) (VInt64 w) mp \<and>
            sint w = sint (fst (GetInt64 cv (flagset p) (Name f))))"
    by (auto simp: v typeSwitch_int64)
  from 1 2 3 4 5 show ?thesis by blast
qed

theorem signed_integer_widening_witness:
  "included exProvider fHigh \<and> included exProvider fLow \<and> LENGTH(64) \<le> (64 :: nat) \<and>
   Type (Value fHigh) = ''int8'' \<and> Type (Value fLow) = ''int8'' \<and>
   fst (GetInt8 exConv (flagset exProvider) (Name fHigh)) = 127 \<and>
   fst (GetInt8 exConv (flagset exProvider) (Name fLow)) = - 128 \<and>
   (\<exists>w. visit exConv exProvider fHigh [] = [(''high'', VInt64 w)] \<and> sint w = 127) \<and>
   (\<exists>w. visit exConv exProvider fLow [] = [(''low'', VInt64 w)] \<and> sint w = - 128)"
proof -
  have inc: "included exProvider fHigh" "included exProvider fLow"
    by (simp_all add: included_def ex_defs)
  have len: "LENGTH(64) \<le> (64 :: nat)" by simp
  have ty: "Type (Value fHigh) = ''int8''" "Type (Value fLow) = ''int8''"
    by (simp_all add: ex_defs)
  have get: "fst (GetInt8 exConv (flagset exProvider) (Name fHigh)) = 127"
    "fst (GetInt8 exConv (flagset exProvider) (Name fLow)) = - 128"
    by (simp_all add: ex_defs get_defs)
  have key: "keyNameOf exProvider fHigh = ''high''" "keyNameOf exProvider fLow = ''low''"
    by (simp_all add: keyNameOf_def ex_defs)
  have hi: "\<exists>w. visit exConv exProvider fHigh [] = [(''high'', VInt64 w)] \<and> sint w = 127"
    using signed_integer_widening [OF inc(1) len, of exConv "[]"] by (simp add: ty get key)
  have lo: "\<exists>w. visit exConv exProvider fLow [] = [(''low'', VInt64 w)] \<and> sint w = - 128"
    using signed_integer_widening [OF inc(2) len, of exConv "[]"] by (simp add: ty get key)
  from inc len ty get hi lo show ?thesis by blast
qed

section \<open>The default branch\<close>

text \<open>
  C5. An included flag whose tag is none of the switch's tags: with a value callback,
  the callback gets the key and the string rendering, and the pair it returns is
  stored as it is (the key from the rename step is not used), unless the returned key
  is empty, in which case nothing is stored, also for a changed flag; without a
  callback the string rendering is stored under the key.
\<close>

theorem custom_type_default_branch:
  assumes "included p f" and "Type (Value f) \<notin> set caseTags"
  shows
   "(\<forall>cb. valueCallback p = Some cb \<longrightarrow>
        visit cv p f mp =
          (case cb (keyNameOf p f) (String (Value f)) of
             (key, val) \<Rightarrow> if key = [] then mp else AList.update key val mp)) \<and>
    (valueCallback p = None \<longrightarrow>
        visit cv p f mp = AList.update (keyNameOf p f) (VString (String (Value f))) mp)"
  by (simp add: visit_included [OF assms(1)] typeSwitch_default [OF assms(2)])

theorem custom_type_default_branch_witness:
  "included (exProvider\<lparr>valueCallback := Some (\<lambda>k s. (k @ ''.raw'', VString s))\<rparr>) fRatio \<and>
   included (exProvider\<lparr>valueCallback := Some (\<lambda>k s. ([], VString s))\<rparr>) fRatio \<and>
   included exProvider fRatio \<and> 
   Type (Value fRatio) \<notin> set caseTags \<and>
   visit exConv (exProvider\<lparr>valueCallback := Some (\<lambda>k s. (k @ ''.raw'', VString s))\<rparr>) fRatio []
     = [(''ratio.raw'', VString ''1.5'')] \<and>
   visit exConv (exProvider\<lparr>valueCallback := Some (\<lambda>k s. ([], VString s))\<rparr>) fRatio
       [(''port'', VInt64 8080)]
     = [(''port'', VInt64 8080)] \<and>
   visit exConv exProvider fRatio [] = [(''ratio'', VString ''1.5'')]"
proof -
  let ?p1 = "exProvider\<lparr>valueCallback := Some (\<lambda>k s. (k @ ''.raw'', VString s))\<rparr>"
  let ?p2 = "exProvider\<lparr>valueCallback := Some (\<lambda>k s. ([], VString s))\<rparr>"
  have inc: "included ?p1 fRatio" "included ?p2 fRatio" "included exProvider fRatio"
    by (simp_all add: included_def ex_defs)
  have ty: "Type (Value fRatio) \<notin> set caseTags"
    by (simp add: caseTags_def ex_defs)
  have key: "keyNameOf ?p1 fRatio = ''ratio''" "keyNameOf ?p2 fRatio = ''ratio''"
    "keyNameOf exProvider fRatio = ''ratio''" "String (Value fRatio) = ''1.5''"
    by (simp_all add: keyNameOf_def ex_defs)
  have vc: "valueCallback ?p1 = Some (\<lambda>k s. (k @ ''.raw'', VString s))"
    "valueCallback ?p2 = Some (\<lambda>k s. ([], VString s))" "valueCallback exProvider = None"
    by (simp_all add: ex_defs)
  have 1: "visit exConv ?p1 fRatio [] = [(''ratio.raw'', VString ''1.5'')]"
    using custom_type_default_branch [OF inc(1) ty, of exConv "[]"] by (simp add: key)
  have 2: "visit exConv ?p2 fRatio [(''port'', VInt64 8080)] = [(''port'', VInt64 8080)]"
    using custom_type_default_branch [OF inc(2) ty, of exConv "[(''port'', VInt64 8080)]"]
    by (simp add: key)
  have 3: "visit exConv exProvider fRatio [] = [(''ratio'', VString ''1.5'')]"
    using custom_type_default_branch [OF inc(3) ty, of exConv "[]"] by (simp add: key vc)
  from inc ty 1 2 3 show ?thesis by blast
qed


text \<open>
  C10. An included flag with an unsigned tag (\<open>uint\<close>, \<open>uint8\<close>, \<open>uint16\<close>, \<open>uint32\<close>,
  \<open>uint64\<close>) takes the default branch: it is handed to the value callback when there is
  one, and otherwise its string rendering is stored, which is no 64-bit signed integer.
\<close>

theorem unsigned_takes_default_branch:
  assumes "included p f"
    and "Type (Value f) \<in> {''uint'', ''uint8'', ''uint16'', ''uint32'', ''uint64''}"
  shows
   "(\<forall>cb. valueCallback p = Some cb \<longrightarrow>
        visit cv p f mp =
          (case cb (keyNameOf p f) (String (Value f)) of
             (key, val) \<Rightarrow> if key = [] then mp else AList.update key val mp)) \<and>
    (valueCallback p = None \<longrightarrow>
        visit cv p f mp = AList.update (keyNameOf p f) (VString (String (Value f))) mp \<and>
        (\<forall>w. visit cv p f mp \<noteq> AList.update (keyNameOf p f) (VInt64 w) mp))"
proof -
  from assms(2) have t: "Type (Value f) \<notin> set caseTags"
    by (auto simp: caseTags_def)
  have "AList.update k (VString s) mp \<noteq> AList.update k (VInt64 w) mp" for k s w
    and mp :: "'a word gomap"
    using update_eqD [of k "VString s" mp "VInt64 w" mp] by auto
  then show ?thesis
    by (simp add: visit_included [OF assms(1)] typeSwitch_default [OF t])
qed

theorem unsigned_takes_default_branch_witness:
  "included exProvider fRetries \<and>
   included (exProvider\<lparr>valueCallback := Some (\<lambda>k s. (k, VStringSlice [s]))\<rparr>) fRetries \<and>
   Type (Value fRetries) \<in> {''uint'', ''uint8'', ''uint16'', ''uint32'', ''uint64''} \<and>
   visit exConv exProvider fRetries [] = [(''retries'', VString ''3'')] \<and>
   visit exConv (exProvider\<lparr>valueCallback := Some (\<lambda>k s. (k, VStringSlice [s]))\<rparr>) fRetries []
     = [(''retries'', VStringSlice [''3''])]"
proof -
  let ?p1 = "exProvider\<lparr>valueCallback := Some (\<lambda>k s. (k, VStringSlice [s]))\<rparr>"
  have inc: "included exProvider fRetries" "included ?p1 fRetries"
    by (simp_all add: included_def ex_defs)
  have ty: "Type (Value fRetries) \<in> {''uint'', ''uint8'', ''uint16'', ''uint32'', ''uint64''}"
    by (simp add: ex_defs)
  have key: "keyNameOf exProvider fRetries = ''retries''" "keyNameOf ?p1 fRetries = ''retries''"
    "String (Value fRetries) = ''3''"
    by (simp_all add: keyNameOf_def ex_defs)
  have vc: "valueCallback exProvider = None"
    by (simp add: ex_defs)
  have 1: "visit exConv exProvider fRetries [] = [(''retries'', VString ''3'')]"
    using unsigned_takes_default_branch [OF inc(1) ty, of exConv "[]"] by (simp add: key vc)
  have 2: "visit exConv ?p1 fRetries [] = [(''retries'', VStringSlice [''3''])]"
    using unsigned_takes_default_branch [OF inc(2) ty, of exConv "[]"] by (simp add: key)
  from inc ty 1 2 show ?thesis by blast
qed

section \<open>Unsupported operations\<close>

text \<open>
  C8. \<open>ReadBytes\<close> returns no bytes and an error saying that the method is not supported,
  \<open>Watch\<close> returns such an error; both leave the provider as it is, and \<open>Watch\<close> leaves
  the state of the callback as it is, whatever the callback would do to it.
\<close>

theorem ReadBytes_Watch_not_supported:
  "ReadBytes p = (None, Some (Error ''pflag provider does not support this method''), p) \<and>
   Watch p cb w = (Some (Error ''posflag provider does not support this method''), p, w)"
  by (simp add: ReadBytes_def Watch_def)

section \<open>Floating-point flags\<close>

text \<open>
  C4. pflag's 64-bit float value has the type tag \<open>float64\<close> (the tag \<open>GetFloat64\<close> asks
  for), while the switch of \<open>Read\<close> has the case \<open>float\<close>. So a changed 64-bit float flag
  with the value 1.5 takes the default branch and is stored as the string \<open>1.5\<close>, although
  the conversion of that string to a 64-bit float succeeds; and a flag whose tag is
  \<open>float\<close> is stored as the 64-bit float zero, since \<open>GetFloat64\<close> refuses its tag.
\<close>

theorem float64_flag_read_as_string:
  "Type (Value fRatio) = ''float64'' \<and> Changed fRatio \<and>
   float64Conv exConv (String (Value fRatio)) = Inr (Float64 0x3FF8000000000000) \<and>
   Read exConv (Provider \<lparr>formal = [fRatio]\<rparr> ''.'' None)
     = Inr ([(''ratio'', VString ''1.5'')], None, Provider \<lparr>formal = [fRatio]\<rparr> ''.'' None) \<and>
   Read exConv (Provider \<lparr>formal = [fRatio\<lparr>Value := \<lparr>String = ''1.5'', Type = ''float''\<rparr>\<rparr>]\<rparr> ''.'' None)
     = Inr ([(''ratio'', VFloat64 (Float64 0))], None,
            Provider \<lparr>formal = [fRatio\<lparr>Value := \<lparr>String = ''1.5'', Type = ''float''\<rparr>\<rparr>]\<rparr> ''.'' None)"
  by (simp add: Read_def VisitAll_def visit_def typeSwitch_def keyNameOf_def Unflatten_def nest_def
      Split_def ex_defs get_defs)

section \<open>Nesting and flattening again\<close>

subsection \<open>Splitting and joining\<close>

lemma genSplit_nonempty: "genSplit sep cur s \<noteq> []"
  by (induction sep cur s rule: genSplit.induct) auto

lemma Join_Cons: "Join (x # xs) sep = (if xs = [] then x else x @ sep @ Join xs sep)"
  by (cases xs) auto

lemma Join_genSplit: "sep \<noteq> [] \<Longrightarrow> Join (genSplit sep cur s) sep = cur @ s"
proof (induction sep cur s rule: genSplit.induct)
  case (1 sep cur)
  then show ?case by simp
next
  case (2 sep cur c cs)
  show ?case
  proof (cases "prefix sep (c # cs)")
    case True
    then have "sep @ drop (length sep) (c # cs) = c # cs"
      by (metis append_eq_conv_conj prefix_def)
    with True 2 show ?thesis
      by (simp add: Join_Cons genSplit_nonempty)
  next
    case False
    with 2 show ?thesis by simp
  qed
qed

lemma Join_explode: "Join (map (\<lambda>c. [c]) s) [] = s"
  by (induction s) (auto simp: Join_Cons)

lemma Join_Split: "Join (Split k d) d = k"
  by (simp add: Split_def Join_genSplit Join_explode)

lemma isLeaf_simps [simp]:
  "isLeaf VNil" "isLeaf (VInt64 w)" "isLeaf (VFloat32 a)" "isLeaf (VFloat64 b)" "isLeaf (VBool c)"
  "isLeaf (VString s)" "isLeaf (VStringSlice ss)" "isLeaf (VIntSlice ns)"
  "isLeaf (VMap n) = (n = [])"
  by (auto simp: isLeaf_def split: list.splits)

lemma nested_VMap [simp]: "nested (VMap n) = n"
  by (simp add: nested_def)

lemma not_isLeaf: "\<not> isLeaf v \<Longrightarrow> v = VMap (nested v) \<and> nested v \<noteq> []"
  by (cases v) auto

lemma isLeaf_nested: "isLeaf v \<Longrightarrow> nested v = []"
  by (cases v) (auto simp: nested_def)

lemma flatten_Cons:
  "flatten ((key, val) # m) keys d =
     (if isLeaf val then [(Join (keys @ [key]) d, val)] else flatten (nested val) (keys @ [key]) d)
     @ flatten m keys d"
  by (cases val) (auto split: list.splits)

lemma paths_Cons:
  "paths ((key, val) # m) keys =
     (if isLeaf val then [(keys @ [key], val)] else paths (nested val) (keys @ [key]))
     @ paths m keys"
  by (cases val) (auto split: list.splits)

lemma flatten_paths: "flatten m keys d = map (\<lambda>(q, v). (Join q d, v)) (paths m keys)"
proof (induction m keys d rule: flatten.induct)
  case (1 keys d)
  show ?case by simp
next
  case (2 key val m keys d)
  show ?case
  proof (cases "isLeaf val")
    case True
    with 2(2) show ?thesis by (simp only: flatten_Cons paths_Cons) simp
  next
    case False
    from not_isLeaf [OF False] obtain c cur where v: "val = VMap (c # cur)"
      by (cases "nested val") auto
    from 2(1) [OF v] 2(2) v show ?thesis by simp
  qed
qed

lemma paths_prefix: "paths m (keys0 @ keys) = map (\<lambda>(q, v). (keys0 @ q, v)) (paths m keys)"
proof (induction m keys rule: paths.induct)
  case (1 keys)
  show ?case by simp
next
  case (2 key val m keys)
  show ?case
  proof (cases "isLeaf val")
    case True
    with 2(2) show ?thesis by (simp only: paths_Cons) simp
  next
    case False
    from not_isLeaf [OF False] obtain c cur where v: "val = VMap (c # cur)"
      by (cases "nested val") auto
    from 2(1) [OF v] 2(2) v show ?thesis by simp
  qed
qed



subsection \<open>The leaves after an assignment\<close>

lemma leafPaths_Nil [simp]: "leafPaths [] = {}"
  by (simp add: leafPaths_def)

lemma leafPaths_Cons: "leafPaths ((key, val) # m) = (\<lambda>(q, w). (key # q, w)) ` leavesBelow val \<union> leafPaths m"
proof -
  have "paths (nested val) [key] = map (\<lambda>(q, v). ([key] @ q, v)) (paths (nested val) [])"
    using paths_prefix [of "nested val" "[key]" "[]"] by simp
  then show ?thesis
    by (auto simp: leafPaths_def leavesBelow_def paths_Cons simp del: paths.simps)
qed

lemma leafPaths_iff:
  "(q, w) \<in> leafPaths t \<longleftrightarrow> (\<exists>key val q'. (key, val) \<in> set t \<and> q = key # q' \<and> (q', w) \<in> leavesBelow val)"
  by (induction t) (fastforce simp: leafPaths_Cons)+

lemma leafPaths_iff_distinct:
  "distinct (map fst t) \<Longrightarrow>
   (q, w) \<in> leafPaths t \<longleftrightarrow> (\<exists>key val q'. map_of t key = Some val \<and> q = key # q' \<and> (q', w) \<in> leavesBelow val)"
  by (auto simp: leafPaths_iff)

lemma paths_nonempty: "t \<noteq> [] \<Longrightarrow> paths t keys \<noteq> []"
proof (induction t keys rule: paths.induct)
  case (1 keys)
  then show ?case by simp
next
  case (2 key val m keys)
  show ?case
  proof (cases "isLeaf val")
    case True
    then show ?thesis by (simp only: paths_Cons) simp
  next
    case False
    from not_isLeaf [OF False] obtain c cur where v: "val = VMap (c # cur)"
      by (cases "nested val") auto
    from 2(1) [OF v] v show ?thesis by simp
  qed
qed

lemma leavesBelow_nonempty: "leavesBelow v \<noteq> {}"
  using paths_nonempty [of "nested v" "[]"] not_isLeaf [of v]
  by (auto simp: leavesBelow_def leafPaths_def)

lemma assign_nonempty: "p \<noteq> [] \<Longrightarrow> assign p v t \<noteq> []"
  by (induction p v t rule: assign.induct) (auto split: option.splits interface.splits)

lemma assign_Cons:
  "ks \<noteq> [] \<Longrightarrow> assign (k # ks) v t = AList.update k (VMap (assign ks v (nestedAt t k))) t"
  by (cases ks) (auto simp: nestedAt_def nested_def split: option.splits interface.splits)


lemma leafPaths_at:
  "distinct (map fst t) \<Longrightarrow>
   (k # q', w) \<in> leafPaths t \<longleftrightarrow> (\<exists>v0. map_of t k = Some v0 \<and> (q', w) \<in> leavesBelow v0)"
  by (simp add: leafPaths_iff_distinct)

lemma leafPaths_not_Nil: "([], w) \<notin> leafPaths t"
  by (simp add: leafPaths_iff)

lemma leafPaths_update:
  assumes "distinct (map fst t)"
  shows "(q, w) \<in> leafPaths (AList.update k v' t) \<longleftrightarrow>
           (\<exists>q'. q = k # q' \<and> (q', w) \<in> leavesBelow v') \<or> ((q, w) \<in> leafPaths t \<and> (\<forall>q'. q \<noteq> k # q'))"
proof (cases q)
  case Nil
  then show ?thesis by (simp add: leafPaths_not_Nil)
next
  case (Cons key q')
  have d: "distinct (map fst (AList.update k v' t))"
    by (rule distinct_update [OF assms])
  show ?thesis
    by (simp add: Cons leafPaths_at [OF d] leafPaths_at [OF assms] update_conv')
qed

lemma wellFormed_distinct: "wellFormed t \<Longrightarrow> distinct (map fst t)"
  by (erule wellFormed.cases) simp

lemma wellFormed_Nil: "wellFormed []"
  by (rule wellFormed.intros) simp_all

lemma wellFormed_nested: "wellFormed t \<Longrightarrow> (k, v) \<in> set t \<Longrightarrow> wellFormed (nested v)"
  by (cases v) (auto simp: nested_def wellFormed_Nil elim: wellFormed.cases)

lemma wellFormed_nestedAt: "wellFormed t \<Longrightarrow> wellFormed (nestedAt t k)"
  by (auto simp: nestedAt_def wellFormed_Nil split: option.splits
      dest: map_of_SomeD intro: wellFormed_nested)

lemma set_update: "(a, b) \<in> set (AList.update k v t) \<Longrightarrow> (a, b) = (k, v) \<or> (a, b) \<in> set t"
  by (induction t) (auto split: if_splits)

lemma wellFormed_update:
  assumes "wellFormed t" and "wellFormed (nested v)"
  shows "wellFormed (AList.update k v t)"
proof (rule wellFormed.intros)
  show "distinct (map fst (AList.update k v t))"
    by (rule distinct_update [OF wellFormed_distinct [OF assms(1)]])
  show "\<forall>k' n. (k', VMap n) \<in> set (AList.update k v t) \<longrightarrow> wellFormed n"
  proof (intro allI impI)
    fix k' n
    assume "(k', VMap n) \<in> set (AList.update k v t)"
    then have "(k', VMap n) = (k, v) \<or> (k', VMap n) \<in> set t"
      by (rule set_update)
    then show "wellFormed n"
      using assms wellFormed_nested [OF assms(1), of k' "VMap n"] by auto
  qed
qed

lemma wellFormed_assign: "wellFormed t \<Longrightarrow> isLeaf v \<Longrightarrow> wellFormed (assign p v t)"
proof (induction p arbitrary: t)
  case Nil
  then show ?case by simp
next
  case (Cons k ks)
  show ?case
  proof (cases "ks = []")
    case True
    with Cons.prems show ?thesis
      by (simp add: wellFormed_update isLeaf_nested wellFormed_Nil)
  next
    case False
    have "wellFormed (assign ks v (nestedAt t k))"
      by (rule Cons.IH [OF wellFormed_nestedAt [OF Cons.prems(1)] Cons.prems(2)])
    with Cons.prems(1) show ?thesis
      by (simp add: assign_Cons [OF False] wellFormed_update)
  qed
qed


lemma leafPaths_nestedAt:
  assumes "distinct (map fst t)" and "(q, w) \<in> leafPaths (nestedAt t k)"
  shows "(k # q, w) \<in> leafPaths t"
proof (cases "map_of t k")
  case None
  with assms(2) show ?thesis by (simp add: nestedAt_def)
next
  case (Some v0)
  with assms(2) have in_n: "(q, w) \<in> leafPaths (nested v0)"
    by (simp add: nestedAt_def)
  have "\<not> isLeaf v0"
    using in_n isLeaf_nested [of v0] by auto
  with in_n have "(q, w) \<in> leavesBelow v0"
    by (simp add: leavesBelow_def)
  with Some show ?thesis
    by (simp add: leafPaths_at [OF assms(1)])
qed

lemma leafPaths_assign:
  assumes "wellFormed t" and "p \<noteq> []" and "isLeaf v"
    and "\<forall>(q, w) \<in> leafPaths t. \<not> prefix q p \<and> \<not> prefix p q"
  shows "leafPaths (assign p v t) = insert (p, v) (leafPaths t)"
  using assms
proof (induction p arbitrary: t)
  case Nil
  then show ?case by simp
next
  case (Cons k ks)
  have d: "distinct (map fst t)"
    by (rule wellFormed_distinct [OF Cons.prems(1)])
  have free: "\<not> prefix q (k # ks) \<and> \<not> prefix (k # ks) q" if "(q, w) \<in> leafPaths t" for q w
    using Cons.prems(4) that by auto
  show ?case
  proof (cases "ks = []")
    case True
    have none: "map_of t k = None"
    proof (rule ccontr)
      assume "map_of t k \<noteq> None"
      then obtain v0 where v0: "map_of t k = Some v0" by auto
      obtain q' w where "(q', w) \<in> leavesBelow v0"
        using leavesBelow_nonempty [of v0] by auto
      with v0 have "(k # q', w) \<in> leafPaths t"
        by (simp add: leafPaths_at [OF d])
      from free [OF this] True show False by simp
    qed
    have Lv: "leavesBelow v = {([], v)}"
      using Cons.prems(3) by (simp add: leavesBelow_def)
    have "(q, w) \<in> leafPaths (AList.update k v t) \<longleftrightarrow> (q, w) \<in> insert ([k], v) (leafPaths t)" for q w
    proof (cases q)
      case Nil
      then show ?thesis by (simp add: leafPaths_not_Nil)
    next
      case (Cons key q')
      then show ?thesis
        using none by (auto simp: leafPaths_update [OF d] Lv leafPaths_at [OF d])
    qed
    with True show ?thesis by auto
  next
    case False
    let ?n = "nestedAt t k"
    have wn: "wellFormed ?n"
      by (rule wellFormed_nestedAt [OF Cons.prems(1)])
    have fn: "\<forall>(q, w) \<in> leafPaths ?n. \<not> prefix q ks \<and> \<not> prefix ks q"
    proof (clarify)
      fix q w
      assume "(q, w) \<in> leafPaths ?n"
      then have "(k # q, w) \<in> leafPaths t"
        by (rule leafPaths_nestedAt [OF d])
      from free [OF this] show "\<not> prefix q ks \<and> \<not> prefix ks q" by simp
    qed
    have IH: "leafPaths (assign ks v ?n) = insert (ks, v) (leafPaths ?n)"
      by (rule Cons.IH [OF wn False Cons.prems(3) fn])
    have LV: "leavesBelow (VMap (assign ks v ?n)) = insert (ks, v) (leafPaths ?n)"
      using assign_nonempty [OF False, of v ?n] by (simp add: leavesBelow_def IH)
    have at_k: "(\<exists>v0. map_of t k = Some v0 \<and> (q', w) \<in> leavesBelow v0) \<longleftrightarrow> (q', w) \<in> leafPaths ?n" for q' w
    proof (cases "map_of t k")
      case None
      then show ?thesis by (simp add: nestedAt_def)
    next
      case (Some v0)
      have "\<not> isLeaf v0"
      proof
        assume "isLeaf v0"
        with Some have "([k], v0) \<in> leafPaths t"
          by (simp add: leafPaths_at [OF d] leavesBelow_def)
        from free [OF this] show False by simp
      qed
      with Some show ?thesis
        by (simp add: nestedAt_def leavesBelow_def)
    qed
    have "(q, w) \<in> leafPaths (AList.update k (VMap (assign ks v ?n)) t)
            \<longleftrightarrow> (q, w) \<in> insert (k # ks, v) (leafPaths t)" for q w
    proof (cases q)
      case Nil
      then show ?thesis by (simp add: leafPaths_not_Nil)
    next
      case (Cons key q')
      show ?thesis
      proof (cases "key = k")
        case True
        with Cons show ?thesis
          using at_k [of q' w] by (auto simp: leafPaths_update [OF d] LV leafPaths_at [OF d])
      next
        case False
        with Cons show ?thesis
          by (auto simp: leafPaths_update [OF d])
      qed
    qed
    then show ?thesis
      by (auto simp: assign_Cons [OF False])
  qed
qed


lemma leafPaths_fold:
  assumes "wellFormed t"
    and "collisionFree (segments m d)" and "[] \<notin> set (segments m d)" and "flatValues m"
    and "\<forall>p \<in> set (segments m d). \<forall>(q, w) \<in> leafPaths t. \<not> prefix q p \<and> \<not> prefix p q"
  shows "leafPaths (fold (\<lambda>(k, v) out. assign (Split k d) v out) m t)
           = leafPaths t \<union> (\<lambda>(k, v). (Split k d, v)) ` set m"
  using assms
proof (induction m arbitrary: t)
  case Nil
  then show ?case by simp
next
  case (Cons e m)
  obtain k v where e: "e = (k, v)" by (cases e)
  let ?p = "Split k d"
  let ?t = "assign ?p v t"
  from Cons.prems e have p: "?p \<noteq> []" and v: "isLeaf v"
    and cf: "collisionFree (segments m d)" and ne: "[] \<notin> set (segments m d)"
    and fv: "flatValues m"
    and others: "\<forall>q \<in> set (segments m d). \<not> prefix ?p q \<and> \<not> prefix q ?p"
    and here: "\<forall>(q, w) \<in> leafPaths t. \<not> prefix q ?p \<and> \<not> prefix ?p q"
    by (auto simp: segments_def flatValues_def)
  have Pt: "leafPaths ?t = insert (?p, v) (leafPaths t)"
    by (rule leafPaths_assign [OF Cons.prems(1) p v here])
  have wt: "wellFormed ?t"
    by (rule wellFormed_assign [OF Cons.prems(1) v])
  have rest: "\<forall>p \<in> set (segments m d). \<forall>(q, w) \<in> leafPaths ?t. \<not> prefix q p \<and> \<not> prefix p q"
    using others Cons.prems(5) by (auto simp: Pt segments_def)
  have "leafPaths (fold (\<lambda>(k, v) out. assign (Split k d) v out) m ?t)
          = leafPaths ?t \<union> (\<lambda>(k, v). (Split k d, v)) ` set m"
    by (rule Cons.IH [OF wt cf ne fv rest])
  then show ?case
    by (simp add: e Pt)
qed

lemma leafPaths_nest:
  assumes "collisionFree (segments m d)" and "[] \<notin> set (segments m d)" and "flatValues m"
  shows "leafPaths (nest m d) = (\<lambda>(k, v). (Split k d, v)) ` set m"
  using leafPaths_fold [OF wellFormed_Nil assms] by (simp add: nest_def)

lemma set_flatten_nest:
  assumes "collisionFree (segments m d)" and "[] \<notin> set (segments m d)" and "flatValues m"
  shows "set (flatten (nest m d) [] d) = set m"
proof -
  have "set (flatten (nest m d) [] d) = (\<lambda>(q, v). (Join q d, v)) ` leafPaths (nest m d)"
    by (simp add: flatten_paths leafPaths_def)
  also have "\<dots> = (\<lambda>(k, v). (Join (Split k d) d, v)) ` set m"
    by (force simp: leafPaths_nest [OF assms] image_iff)
  also have "\<dots> = set m"
    by (simp add: Join_Split)
  finally show ?thesis .
qed

lemma list_ex_segments: "list_ex (\<lambda>(k, v). Split k d = []) m \<longleftrightarrow> [] \<in> set (segments m d)"
  by (induction m) (auto simp: segments_def)

lemma Unflatten_nest: "[] \<notin> set (segments m d) \<Longrightarrow> Unflatten m d = Inr (nest m d)"
  by (simp add: Unflatten_def list_ex_segments)

lemma Unflatten_panic: "[] \<in> set (segments m d) \<Longrightarrow> Unflatten m d = Inl SliceBoundsOutOfRange"
  by (simp add: Unflatten_def list_ex_segments)

lemma collisionFree_distinct: "collisionFree ps \<Longrightarrow> distinct ps"
  by (induction ps) auto

lemma distinct_map_comp: "distinct (map (\<lambda>x. g (f x)) xs) \<Longrightarrow> distinct (map f xs)"
  by (induction xs) auto

lemma segments_distinct_keys:
  assumes "collisionFree (segments m d)"
  shows "distinct (map fst m)"
proof -
  have "segments m d = map (\<lambda>e. Split (fst e) d) m"
    by (simp add: segments_def case_prod_unfold)
  with collisionFree_distinct [OF assms] have "distinct (map (\<lambda>e. Split (fst e) d) m)"
    by simp
  then show ?thesis
    by (rule distinct_map_comp)
qed

lemma map_of_eq_set:
  assumes "set xs = set ys" and "distinct (map fst ys)"
  shows "map_of xs = map_of ys"
proof (rule ext)
  fix k
  show "map_of xs k = map_of ys k"
  proof (cases "map_of xs k")
    case None
    then have "k \<notin> fst ` set ys"
      using assms(1) by (simp add: map_of_eq_None_iff)
    then have "map_of ys k = None"
      by (simp add: map_of_eq_None_iff)
    with None show ?thesis by simp
  next
    case (Some v)
    then have "(k, v) \<in> set ys"
      using assms(1) map_of_SomeD by fastforce
    with assms(2) Some show ?thesis by simp
  qed
qed

subsection \<open>The round trip\<close>

text \<open>
  C2, as amended. Take a flat map in which no value is a non-empty nested map, every
  key has at least one segment under the delimiter (only the empty key under the empty
  delimiter has none) and no key's segments are a prefix of another key's segments.
  Nesting it by the delimiter and flattening the result by the same delimiter gives
  back exactly its entries, as a set of pairs and as a map.
\<close>

theorem Unflatten_Flatten_roundtrip:
  assumes "collisionFree (segments m d)" and "[] \<notin> set (segments m d)"
    and "flatValues m"
  shows "Unflatten m d = Inr (nest m d) \<and>
         set (flatten (nest m d) [] d) = set m \<and>
         Flatten (nest m d) [] d = map_of m"
proof (intro conjI)
  show "Unflatten m d = Inr (nest m d)"
    by (rule Unflatten_nest [OF assms(2)])
  show s: "set (flatten (nest m d) [] d) = set m"
    by (rule set_flatten_nest [OF assms])
  have "set (rev (flatten (nest m d) [] d)) = set m"
    using s by simp
  then show "Flatten (nest m d) [] d = map_of m"
    unfolding Flatten_def by (rule map_of_eq_set) (rule segments_distinct_keys [OF assms(1)])
qed

theorem Unflatten_Flatten_roundtrip_witness:
  "collisionFree (segments exFlat ''.'') \<and> [] \<notin> set (segments exFlat ''.'') \<and> flatValues exFlat \<and>
   Unflatten exFlat ''.''
     = Inr [(''parent'', VMap [(''child'', VMap [(''key'', VInt64 1)]), (''name'', VString ''x'')]),
            (''top'', VMap [])] \<and>
   Flatten (nest exFlat ''.'') [] ''.'' = map_of exFlat"
proof -
  have seg: "segments exFlat ''.'' = [[''parent'', ''child'', ''key''], [''parent'', ''name''], [''top'']]"
    by (simp add: segments_def exFlat_def Split_def)
  have 1: "collisionFree (segments exFlat ''.'')" and 2: "[] \<notin> set (segments exFlat ''.'')"
    by (simp_all add: seg)
  have 3: "flatValues exFlat"
    by (simp add: flatValues_def exFlat_def)
  have 4: "nest exFlat ''.''
     = [(''parent'', VMap [(''child'', VMap [(''key'', VInt64 1)]), (''name'', VString ''x'')]),
        (''top'', VMap [])]"
    by (simp add: nest_def exFlat_def Split_def)
  from 1 2 3 Unflatten_Flatten_roundtrip [OF 1 2 3] show ?thesis by (simp add: 4)
qed

text \<open>
  Without the condition on the values the round trip fails: a value callback may hand
  over a nested map, here \<open>{b: 1}\<close> under the key \<open>a\<close>. The accumulator of \<open>Read\<close> is then
  \<open>{a: {b: 1}}\<close>, a single key without collisions; nesting leaves it as it is, and
  flattening gives \<open>{a.b: 1}\<close>.
\<close>

theorem nested_value_not_reproduced:
  "VisitAll (flagset exNestedProvider) (visit exConv exNestedProvider) [] = exNested \<and>
   distinct (map fst exNested) \<and> collisionFree (segments exNested ''.'') \<and>
   Unflatten exNested ''.'' = Inr exNested \<and>
   flatten exNested [] ''.'' = [(''a.b'', VInt64 1)] \<and>
   Flatten exNested [] ''.'' \<noteq> map_of exNested"
proof -
  have 1: "VisitAll (flagset exNestedProvider) (visit exConv exNestedProvider) [] = exNested"
    by (simp add: exNestedProvider_def ProviderWithValue_def VisitAll_def visit_def
        typeSwitch_def keyNameOf_def exNested_def fRetries_def)
  have 2: "distinct (map fst exNested)" "collisionFree (segments exNested ''.'')"
    by (simp_all add: exNested_def segments_def Split_def)
  have 3: "Unflatten exNested ''.'' = Inr exNested"
    by (simp add: exNested_def Unflatten_def nest_def Split_def)
  have 4: "flatten exNested [] ''.'' = [(''a.b'', VInt64 1)]"
    by (simp add: exNested_def)
  have "Flatten exNested [] ''.'' ''a'' \<noteq> map_of exNested ''a''"
    by (simp add: Flatten_def 4) (simp add: exNested_def)
  then have 5: "Flatten exNested [] ''.'' \<noteq> map_of exNested"
    by auto
  from 1 2 3 4 5 show ?thesis by simp
qed

section \<open>Read as a whole\<close>













subsection \<open>The inclusion decision\<close>




subsection \<open>The rename callback\<close>

text \<open>
  C6, as amended. With a key-rename callback \<open>r\<close>, the closure works with \<open>r f\<close> in
  place of the flag's name, for changed and for unchanged flags alike: the parent is
  asked about \<open>r f\<close>, and the type switch is entered with \<open>r f\<close>. Where the switch stores
  a value of its own (one of its tags, or no value callback), it stores under \<open>r f\<close> the
  very value it would store under the raw name. For a flag of another type with a value
  callback, \<open>r f\<close> is what the value callback receives, and the key under which the flag
  is stored is the one the value callback returns.
\<close>

theorem rename_callback_gives_key:
  assumes "keyNameCallback p = Some r"
  shows
   "visit cv p f mp =
      (if \<not> Changed f
       then (case ko p of
               Some k \<Rightarrow> if Exists k (r f) then mp else typeSwitch cv p f (r f) mp
             | None \<Rightarrow> mp)
       else typeSwitch cv p f (r f) mp) \<and>
    (Type (Value f) \<in> set caseTags \<or> valueCallback p = None \<longrightarrow>
       (\<exists>v. typeSwitch cv p f (r f) mp = AList.update (r f) v mp \<and>
            typeSwitch cv p f (Name f) mp = AList.update (Name f) v mp)) \<and>
    (\<forall>cb. Type (Value f) \<notin> set caseTags \<and> valueCallback p = Some cb \<longrightarrow>
       typeSwitch cv p f (r f) mp =
         (case cb (r f) (String (Value f)) of
            (key, val) \<Rightarrow> if key = [] then mp else AList.update key val mp))"
proof (intro conjI allI)
  show "visit cv p f mp =
      (if \<not> Changed f
       then (case ko p of
               Some k \<Rightarrow> if Exists k (r f) then mp else typeSwitch cv p f (r f) mp
             | None \<Rightarrow> mp)
       else typeSwitch cv p f (r f) mp)"
    by (simp add: visit_def Let_def keyNameOf_rename [OF assms])
  show "Type (Value f) \<in> set caseTags \<or> valueCallback p = None \<longrightarrow>
       (\<exists>v. typeSwitch cv p f (r f) mp = AList.update (r f) v mp \<and>
            typeSwitch cv p f (Name f) mp = AList.update (Name f) v mp)"
    using typeSwitch_key_only [of f p cv mp] by blast
  show "Type (Value f) \<notin> set caseTags \<and> valueCallback p = Some cb \<longrightarrow>
       typeSwitch cv p f (r f) mp =
         (case cb (r f) (String (Value f)) of
            (key, val) \<Rightarrow> if key = [] then mp else AList.update key val mp)" for cb
    by (simp add: typeSwitch_default)
qed

theorem rename_callback_gives_key_witness:
  "keyNameCallback (RenameCallback (Some exRename) exProvider) = Some exRename \<and>
   visit exConv (RenameCallback (Some exRename) exProvider) fPort []
     = [(''server.port'', VInt64 8080)] \<and>
   visit exConv (RenameCallback (Some exRename) (ParentKoanf (Some exParentR) exProvider)) fTags []
     = [(''server.tags'', VStringSlice [''a'', ''b''])] \<and>
   visit exConv (RenameCallback (Some exRename) (ParentKoanf (Some exParentR) exProvider)) fHost []
     = [] \<and>
   visit exConv (RenameCallback (Some exRename) (ParentKoanf (Some exParent) exProvider)) fHost []
     = [(''server.host'', VString ''localhost'')]"
proof -
  let ?p = "RenameCallback (Some exRename) exProvider"
  let ?q = "RenameCallback (Some exRename) (ParentKoanf (Some exParentR) exProvider)"
  let ?r = "RenameCallback (Some exRename) (ParentKoanf (Some exParent) exProvider)"
  have cb: "keyNameCallback ?p = Some exRename" "keyNameCallback ?q = Some exRename"
    "keyNameCallback ?r = Some exRename"
    by (simp_all add: RenameCallback_def)
  have 1: "visit exConv ?p fPort [] = [(''server.port'', VInt64 8080)]"
    using rename_callback_gives_key [OF cb(1), of exConv fPort "[]"]
    by (simp add: typeSwitch_def RenameCallback_def exRename_def ex_defs get_defs)
  have 2: "visit exConv ?q fTags [] = [(''server.tags'', VStringSlice [''a'', ''b''])]"
    using rename_callback_gives_key [OF cb(2), of exConv fTags "[]"]
    by (simp add: typeSwitch_def RenameCallback_def ParentKoanf_def exRename_def exParentR_def
        ex_defs get_defs)
  have 3: "visit exConv ?q fHost [] = []"
    using rename_callback_gives_key [OF cb(2), of exConv fHost "[]"]
    by (simp add: typeSwitch_def RenameCallback_def ParentKoanf_def exRename_def exParentR_def
        ex_defs get_defs)
  have 4: "visit exConv ?r fHost [] = [(''server.host'', VString ''localhost'')]"
    using rename_callback_gives_key [OF cb(3), of exConv fHost "[]"]
    by (simp add: typeSwitch_def RenameCallback_def ParentKoanf_def exRename_def
        ex_defs get_defs)
  from cb(1) 1 2 3 4 show ?thesis by blast
qed

text \<open>
  As the claim has it, the rename callback's result is the output key of every flag.
  With the rename callback \<open>server.\<close> + name and a value callback that returns the key
  \<open>x\<close>, the flag \<open>retries\<close> is stored under \<open>x\<close>; \<open>server.retries\<close> is only what the value
  callback was given.
\<close>

theorem renamed_key_replaced_by_value_callback:
  "keyNameCallback exRenameValueProvider = Some exRename \<and>
   exRename fRetries = ''server.retries'' \<and>
   fRetries \<in> set (formal (flagset exRenameValueProvider)) \<and>
   Read exConv exRenameValueProvider
     = Inr ([(''x'', VString ''server.retries'')], None, exRenameValueProvider)"
  by (simp add: Read_def VisitAll_def visit_def typeSwitch_def keyNameOf_def Unflatten_def
      nest_def Split_def exRenameValueProvider_def RenameCallback_def ProviderWithValue_def
      exRename_def fRetries_def)

subsection \<open>Errors\<close>





end
